theory Spec2Isabelle
  imports Main
begin

section \<open>Strings\<close>

text \<open>
  A Python \<open>str\<close> is modelled as a \<open>string\<close>: the list of the bytes of its UTF-8
  encoding. The byte of \<open>.\<close> never occurs inside the encoding of another code point, so
  splitting at \<open>.\<close>, joining with \<open>.\<close>, concatenation and equality agree on both views.
\<close>

text \<open>
  \<open>s.split(sep)\<close> for a separator of one character: a scan from the left that collects
  the current piece in \<open>acc\<close> and closes it at every separator and at the end. The result
  has one more piece than \<open>s\<close> has separators, so it is never empty.
\<close>

fun split_scan :: "char \<Rightarrow> string \<Rightarrow> string \<Rightarrow> string list" where
  "split_scan sep acc [] = [acc]"
| "split_scan sep acc (c # cs) =
     (if c = sep then acc # split_scan sep [] cs
      else split_scan sep (acc @ [c]) cs)"

definition str_split :: "char \<Rightarrow> string \<Rightarrow> string list" where
  "str_split sep s = split_scan sep [] s"

text \<open>\<open>sep.join(xs)\<close>: the pieces with \<open>sep\<close> between each two neighbours.\<close>

fun str_join :: "string \<Rightarrow> string list \<Rightarrow> string" where
  "str_join sep [] = []"
| "str_join sep [x] = x"
| "str_join sep (x # y # ys) = x @ sep @ str_join sep (y # ys)"

section \<open>Permission matching (\<open>plane/utils.py\<close>)\<close>

text \<open>
  The \<open>while required_list:\<close> loop of \<open>has_permissions\<close>. An empty list leaves the
  loop and the function returns \<open>False\<close>; otherwise the joined list is looked up in
  \<open>permissions\<close>, and \<open>required_list.pop()\<close> removes the last segment.
\<close>

fun has_permissions_loop :: "string list \<Rightarrow> string list \<Rightarrow> bool" where
  "has_permissions_loop required_list permissions =
     (if required_list = [] then False
      else if str_join ''.'' required_list \<in> set permissions then True
      else has_permissions_loop (butlast required_list) permissions)"

declare has_permissions_loop.simps [simp del]

definition has_permissions :: "string \<Rightarrow> string list \<Rightarrow> bool" where
  "has_permissions required permissions =
     has_permissions_loop (str_split (CHR ''.'') required) permissions"

section \<open>The permission guard (\<open>plane/utils.py\<close>)\<close>

text \<open>
  The guard reads \<open>self._http.permissions\<close>, which is \<open>None\<close> until the permissions
  have been fetched. The endpoint object is an extensible record: its extension stands
  for everything else the wrapped operation can read and change.
\<close>

record http_client =
  permissions :: "string list option"

record http_aware_endpoint =
  http :: http_client

text \<open>
  Exceptions. \<open>AccessException\<close> (declared in \<open>plane.api.errors\<close>) is built from the
  required permission string; \<open>Other\<close> stands for whatever else the wrapped operation
  raises.
\<close>

datatype 'e exn = AssertionError string | AccessException string | Other 'e

definition permissions_none_message :: string where
  \<open>permissions_none_message =
     ''Permissions is "None"; were permissions not yet fetched or unexpectedly modified?''\<close>

text \<open>
  \<open>with_permission_check(required)(function)\<close> is the coroutine function \<open>wrapper\<close>;
  the model is one awaited call of it. A call takes the endpoint and the arguments
  (positional and keyword together, as one value) and yields the exception raised or the
  value returned, with the endpoint as the call left it.
\<close>

definition with_permission_check ::
  "string \<Rightarrow>
   ('z http_aware_endpoint_scheme \<Rightarrow> 'a \<Rightarrow> ('e exn + 'r) \<times> 'z http_aware_endpoint_scheme) \<Rightarrow>
   'z http_aware_endpoint_scheme \<Rightarrow> 'a \<Rightarrow> ('e exn + 'r) \<times> 'z http_aware_endpoint_scheme" where
  "with_permission_check required function self args =
     (case permissions (http self) of
        None \<Rightarrow> (Inl (AssertionError permissions_none_message), self)
      | Some granted \<Rightarrow>
          if \<not> has_permissions required granted
          then (Inl (AccessException required), self)
          else function self args)"

text \<open>
  A stub for the wrapped operation, used to observe invocations: it appends the arguments
  of each call to the list \<open>received\<close> of the endpoint and ends with a fixed outcome.
\<close>

record 'a recording_endpoint = http_aware_endpoint +
  received :: "'a list"

definition recording_stub ::
  "('e exn + 'r) \<Rightarrow> ('a, 'z) recording_endpoint_scheme \<Rightarrow> 'a \<Rightarrow>
   ('e exn + 'r) \<times> ('a, 'z) recording_endpoint_scheme" where
  "recording_stub outcome self args = (outcome, self\<lparr>received := received self @ [args]\<rparr>)"

section \<open>Route paths (\<open>plane/routes/paths.py\<close>)\<close>

text \<open>
  An f-string formats an \<open>int\<close> in decimal, with a leading \<open>-\<close> when it is negative.
  CPython refuses the conversion with \<open>ValueError\<close> when the number has more digits
  (the sign not counted) than \<open>sys.get_int_max_str_digits()\<close>, which is 4300 unless
  the program or its environment changes it; this repository does not.
\<close>

datatype path_error = ValueError

definition int_max_str_digits :: nat where
  "int_max_str_digits = 4300"

fun str_nat :: "nat \<Rightarrow> string" where
  "str_nat n =
     (if n < 10 then [''0123456789'' ! n]
      else str_nat (n div 10) @ [''0123456789'' ! (n mod 10)])"

declare str_nat.simps [simp del]

definition str_int :: "int \<Rightarrow> path_error + string" where
  "str_int i =
     (let digits = str_nat (nat \<bar>i\<bar>)
      in if int_max_str_digits < length digits then Inl ValueError
         else Inr (if i < 0 then CHR ''-'' # digits else digits))"

text \<open>
  Each class is a record of its private attributes, a function for \<open>__init__\<close> and one
  function for each property. A constructor that formats an \<open>int\<close> raises what the
  formatting raises, and then no node is built.
\<close>

record Guilds =
  Guilds_guild_id_attr :: int
  Guilds_route_attr :: string

definition Guilds_init :: "int \<Rightarrow> path_error + Guilds" where
  "Guilds_init guild_id =
     (case str_int guild_id of
        Inl e \<Rightarrow> Inl e
      | Inr formatted \<Rightarrow>
          Inr \<lparr>Guilds_guild_id_attr = guild_id, Guilds_route_attr = ''/guilds/'' @ formatted\<rparr>)"

definition Guilds_route :: "Guilds \<Rightarrow> string" where
  "Guilds_route self = Guilds_route_attr self"

definition Guilds_guild_id :: "Guilds \<Rightarrow> int" where
  "Guilds_guild_id self = Guilds_guild_id_attr self"

datatype Tokens = Tokens_init

definition Tokens_route :: "Tokens \<Rightarrow> string" where
  "Tokens_route self = ''/tokens/@current''"

record URLs =
  URLs_url_attr :: string
  URLs_route_attr :: string

definition URLs_init :: "string \<Rightarrow> URLs" where
  "URLs_init url = \<lparr>URLs_url_attr = url, URLs_route_attr = ''/urls/'' @ url\<rparr>"

definition URLs_route :: "URLs \<Rightarrow> string" where
  "URLs_route self = URLs_route_attr self"

definition URLs_url :: "URLs \<Rightarrow> string" where
  "URLs_url self = URLs_url_attr self"

record Users =
  Users_user_id_attr :: int
  Users_route_attr :: string

definition Users_init :: "int \<Rightarrow> path_error + Users" where
  "Users_init user_id =
     (case str_int user_id of
        Inl e \<Rightarrow> Inl e
      | Inr formatted \<Rightarrow>
          Inr \<lparr>Users_user_id_attr = user_id, Users_route_attr = ''/users/'' @ formatted\<rparr>)"

definition Users_route :: "Users \<Rightarrow> string" where
  "Users_route self = Users_route_attr self"

definition Users_user_id :: "Users \<Rightarrow> int" where
  "Users_user_id self = Users_user_id_attr self"

definition Users_pronouns :: "Users \<Rightarrow> string" where
  "Users_pronouns self = Users_route_attr self @ ''/pronouns''"

definition Users_bans :: "Users \<Rightarrow> string" where
  "Users_bans self = Users_route_attr self @ ''/bans''"

definition Users_whitelists :: "Users \<Rightarrow> string" where
  "Users_whitelists self = Users_route_attr self @ ''/whitelists''"

definition Users_reputation :: "Users \<Rightarrow> string" where
  "Users_reputation self = Users_route_attr self @ ''/rep''"

text \<open>The methods of \<open>Paths\<close> that build the nodes.\<close>

definition Paths_guilds :: "int \<Rightarrow> path_error + Guilds" where
  "Paths_guilds guild_id = Guilds_init guild_id"

definition Paths_tokens :: Tokens where
  "Paths_tokens = Tokens_init"

definition Paths_urls :: "string \<Rightarrow> URLs" where
  "Paths_urls url = URLs_init url"

definition Paths_users :: "int \<Rightarrow> path_error + Users" where
  "Paths_users user_id = Users_init user_id"

section \<open>Properties of permission matching\<close>

subsection \<open>Splitting and joining\<close>

lemma split_scan_not_Nil: "split_scan sep acc s \<noteq> []"
  by (induction s arbitrary: acc) auto

lemma str_split_not_Nil: "str_split sep s \<noteq> []"
  by (simp add: str_split_def split_scan_not_Nil)

lemma str_join_Cons: "xs \<noteq> [] \<Longrightarrow> str_join sep (x # xs) = x @ sep @ str_join sep xs"
  by (cases xs) auto

lemma str_join_split_scan: "str_join [sep] (split_scan sep acc s) = acc @ s"
proof (induction s arbitrary: acc)
  case Nil
  show ?case by simp
next
  case (Cons c cs)
  show ?case
  proof (cases "c = sep")
    case True
    then show ?thesis
      using Cons.IH [of "[]"] by (simp add: str_join_Cons split_scan_not_Nil)
  next
    case False
    then show ?thesis using Cons.IH [of "acc @ [c]"] by simp
  qed
qed

lemma str_join_str_split: "str_join [sep] (str_split sep s) = s"
  by (simp add: str_split_def str_join_split_scan)

lemma str_join_first_segment: "x \<noteq> [] \<Longrightarrow> str_join sep (x # xs) \<noteq> []"
  by (cases xs) auto

subsection \<open>The truncation loop\<close>

lemma has_permissions_loop_Nil: "\<not> has_permissions_loop [] G"
  by (simp add: has_permissions_loop.simps)

lemma has_permissions_loop_snoc:
  "has_permissions_loop (segs @ [s]) G \<longleftrightarrow>
     str_join ''.'' (segs @ [s]) \<in> set G \<or> has_permissions_loop segs G"
  by (subst has_permissions_loop.simps) simp

lemma has_permissions_loop_iff:
  "has_permissions_loop segs G \<longleftrightarrow>
     (\<exists>n. 0 < n \<and> n \<le> length segs \<and> str_join ''.'' (take n segs) \<in> set G)"
proof (induction segs rule: rev_induct)
  case Nil
  show ?case by (simp add: has_permissions_loop_Nil)
next
  case (snoc s segs)
  let ?P = "\<lambda>xs n. 0 < n \<and> n \<le> length xs \<and> str_join ''.'' (take n xs) \<in> set G"
  have "(\<exists>n. ?P (segs @ [s]) n) \<longleftrightarrow>
        str_join ''.'' (segs @ [s]) \<in> set G \<or> (\<exists>n. ?P segs n)" (is "?L \<longleftrightarrow> ?now \<or> ?R")
  proof
    assume ?L
    then obtain n where n: "?P (segs @ [s]) n" by blast
    show "?now \<or> ?R"
    proof (cases "n = Suc (length segs)")
      case True
      with n show ?thesis by simp
    next
      case False
      with n have "n \<le> length segs" by simp
      with n have "?P segs n" by simp
      then show ?thesis by blast
    qed
  next
    assume "?now \<or> ?R"
    then show ?L
    proof
      assume ?now
      then have "?P (segs @ [s]) (Suc (length segs))" by simp
      then show ?L by blast
    next
      assume ?R
      then obtain n where "?P segs n" by blast
      then have "?P (segs @ [s]) n" by simp
      then show ?L by blast
    qed
  qed
  with snoc.IH show ?case by (simp add: has_permissions_loop_snoc)
qed

lemma has_permissions_loop_mono:
  "set G \<subseteq> set G' \<Longrightarrow> has_permissions_loop segs G \<Longrightarrow> has_permissions_loop segs G'"
  unfolding has_permissions_loop_iff by blast

text \<open>
  Claim C1. \<open>has_permissions R G\<close> is true exactly when some non-empty prefix of the
  list of dot-segments of \<open>R\<close>, joined with \<open>.\<close>, is an element of \<open>G\<close>. The
  segments joined again give \<open>R\<close>, so the first test is on the full string; a loop on a
  list with a last segment tests the joined list and then goes on without that segment;
  on the empty list the loop answers false.
\<close>

theorem has_permissions_prefix_iff:
  "(has_permissions R G \<longleftrightarrow>
      (\<exists>n. 0 < n \<and> n \<le> length (str_split (CHR ''.'') R)
          \<and> str_join ''.'' (take n (str_split (CHR ''.'') R)) \<in> set G))
   \<and> str_join ''.'' (str_split (CHR ''.'') R) = R
   \<and> (has_permissions_loop (segs @ [s]) G \<longleftrightarrow>
        str_join ''.'' (segs @ [s]) \<in> set G \<or> has_permissions_loop segs G)
   \<and> \<not> has_permissions_loop [] G"
  unfolding has_permissions_def
  using has_permissions_loop_iff [of "str_split (CHR ''.'') R" G]
    str_join_str_split [of "CHR ''.''" R]
    has_permissions_loop_snoc [of segs s G] has_permissions_loop_Nil [of G]
  by simp

theorem has_permissions_prefix_iff_witness:
  "has_permissions ''guilds.bans.read'' [''tokens'', ''guilds.bans'']
   \<and> str_split (CHR ''.'') ''guilds.bans.read'' = [''guilds'', ''bans'', ''read'']
   \<and> str_join ''.'' (take 2 [''guilds'', ''bans'', ''read'']) = ''guilds.bans''
   \<and> \<not> has_permissions ''guilds.bans.read'' [''tokens'', ''bans'', ''read'', ''bans.read'']"
proof -
  have sp: "str_split (CHR ''.'') ''guilds.bans.read'' = [''guilds'', ''bans'', ''read'']"
    by (simp add: str_split_def)
  have tk: "str_join ''.'' (take 2 [''guilds'', ''bans'', ''read'']) = ''guilds.bans''"
    by (simp add: take_Suc_Cons numeral_2_eq_2)
  have ex: "\<exists>n. 0 < n \<and> n \<le> length (str_split (CHR ''.'') ''guilds.bans.read'')
      \<and> str_join ''.'' (take n (str_split (CHR ''.'') ''guilds.bans.read''))
          \<in> set [''tokens'', ''guilds.bans'']"
    by (rule exI [of _ 2]) (simp add: sp tk)
  have yes: "has_permissions ''guilds.bans.read'' [''tokens'', ''guilds.bans'']"
    using has_permissions_prefix_iff [of "''guilds.bans.read''" "[''tokens'', ''guilds.bans'']"] ex
    by blast
  have no: "\<not> has_permissions ''guilds.bans.read'' [''tokens'', ''bans'', ''read'', ''bans.read'']"
    by (simp add: has_permissions_def sp has_permissions_loop.simps)
  from yes sp tk no show ?thesis by blast
qed

text \<open>
  Claim C5. Matching is monotonic in the granted list: when every element of \<open>G\<close> is an
  element of \<open>G'\<close> and \<open>R\<close> matches \<open>G\<close>, then \<open>R\<close> matches \<open>G'\<close>.
\<close>

theorem has_permissions_mono:
  "set G \<subseteq> set G' \<Longrightarrow> has_permissions R G \<Longrightarrow> has_permissions R G'"
  unfolding has_permissions_def by (rule has_permissions_loop_mono)

theorem has_permissions_mono_witness:
  "set [''guilds''] \<subseteq> set [''tokens'', ''guilds'', ''users'']
   \<and> has_permissions ''guilds.bans.read'' [''guilds'']
   \<and> has_permissions ''guilds.bans.read'' [''tokens'', ''guilds'', ''users'']"
proof -
  have sub: "set [''guilds''] \<subseteq> set [''tokens'', ''guilds'', ''users'']"
    by simp
  have small: "has_permissions ''guilds.bans.read'' [''guilds'']"
    by (simp add: has_permissions_def str_split_def has_permissions_loop.simps)
  from sub small has_permissions_mono [OF sub small] show ?thesis by blast
qed

text \<open>
  Claim C6. The split segments of \<open>R\<close> joined again are exactly \<open>R\<close>, and when \<open>R\<close>
  itself is an element of \<open>G\<close> the match succeeds.
\<close>

theorem has_permissions_verbatim:
  "str_join ''.'' (str_split (CHR ''.'') R) = R \<and> (R \<in> set G \<longrightarrow> has_permissions R G)"
proof
  show rejoin: "str_join ''.'' (str_split (CHR ''.'') R) = R"
    by (rule str_join_str_split)
  show "R \<in> set G \<longrightarrow> has_permissions R G"
  proof
    assume "R \<in> set G"
    with rejoin have "str_join ''.'' (str_split (CHR ''.'') R) \<in> set G" by simp
    then show "has_permissions R G"
      unfolding has_permissions_def
      by (subst has_permissions_loop.simps) (simp add: str_split_not_Nil)
  qed
qed

theorem has_permissions_verbatim_witness:
  "''users.bans'' \<in> set [''tokens'', ''users.bans'']
   \<and> has_permissions ''users.bans'' [''tokens'', ''users.bans'']"
proof -
  have mem: "''users.bans'' \<in> set [''tokens'', ''users.bans'']" by simp
  with has_permissions_verbatim [of "''users.bans''" "[''tokens'', ''users.bans'']"]
  show ?thesis by blast
qed

text \<open>
  Claim C7. The empty string splits into one empty segment; it matches the granted list
  holding the empty string and does not match the empty granted list.
\<close>

theorem has_permissions_empty_string:
  "str_split (CHR ''.'') '''' = ['''']
   \<and> has_permissions '''' ['''']
   \<and> \<not> has_permissions '''' []"
  by (simp add: has_permissions_def str_split_def has_permissions_loop.simps)

text \<open>
  Claim C10. When the first dot-segment of \<open>R\<close> is not empty, \<open>R\<close> does not match the
  granted list that holds only the empty string: every non-empty prefix of the segments
  joins to a non-empty string, so the empty string is never one of the strings tested.
\<close>

theorem has_permissions_empty_grant_no_wildcard:
  "str_split (CHR ''.'') R = s # segs \<Longrightarrow> s \<noteq> [] \<Longrightarrow>
     \<not> has_permissions R ['''']
     \<and> (\<forall>n. 0 < n \<longrightarrow> str_join ''.'' (take n (str_split (CHR ''.'') R)) \<noteq> [])"
proof -
  assume sp: "str_split (CHR ''.'') R = s # segs" and ne: "s \<noteq> []"
  have tested: "str_join ''.'' (take n (str_split (CHR ''.'') R)) \<noteq> []" if "0 < n" for n
  proof -
    from that obtain m where "n = Suc m" by (cases n) auto
    then have "take n (str_split (CHR ''.'') R) = s # take m segs" by (simp add: sp)
    with ne show ?thesis by (simp add: str_join_first_segment)
  qed
  then have "\<not> has_permissions R ['''']"
    unfolding has_permissions_def has_permissions_loop_iff by auto
  with tested show ?thesis by blast
qed

theorem has_permissions_empty_grant_no_wildcard_witness:
  "str_split (CHR ''.'') ''guilds.bans.read'' = ''guilds'' # [''bans'', ''read'']
   \<and> ''guilds'' \<noteq> []
   \<and> \<not> has_permissions ''guilds.bans.read'' ['''']
   \<and> (0::nat) < 2
   \<and> str_join ''.'' (take 2 (str_split (CHR ''.'') ''guilds.bans.read'')) \<noteq> []"
proof -
  have sp: "str_split (CHR ''.'') ''guilds.bans.read'' = ''guilds'' # [''bans'', ''read'']"
    by (simp add: str_split_def)
  have ne: "''guilds'' \<noteq> []" by simp
  have two: "(0::nat) < 2" by simp
  from sp ne two has_permissions_empty_grant_no_wildcard [OF sp ne] show ?thesis by blast
qed

text \<open>The hypothesis on the first segment is needed: an empty first segment does match.\<close>

lemma empty_grant_matches_empty_first_segment:
  "has_permissions ''.a'' ['''']"
  by (simp add: has_permissions_def str_split_def has_permissions_loop.simps)

section \<open>Properties of the permission guard\<close>

text \<open>
  What the recording stub sees: a guarded call adds its arguments to the received list
  once when the permissions are populated and match, and leaves the list alone otherwise.
\<close>

lemma guard_recording_stub:
  "received (snd (with_permission_check required (recording_stub outcome) self args))
     = (case permissions (http self) of
          None \<Rightarrow> received self
        | Some granted \<Rightarrow>
            if has_permissions required granted then received self @ [args]
            else received self)"
  by (simp add: with_permission_check_def recording_stub_def split: option.split)

text \<open>
  Claim C2. With the permissions unset (\<open>None\<close>), a guarded call raises the
  \<open>AssertionError\<close>, which is not the access-denied error, whatever the required
  permission, the wrapped operation and the arguments are. The outcome does not depend
  on the wrapped operation and the endpoint is left as it was: the operation is not
  invoked.
\<close>

theorem guard_unset_is_fatal:
  "permissions (http self) = None \<Longrightarrow>
     with_permission_check required function self args
       = (Inl (AssertionError permissions_none_message), self)
     \<and> fst (with_permission_check required function self args)
         \<noteq> Inl (AccessException required)"
  by (simp add: with_permission_check_def)

theorem guard_unset_is_fatal_witness:
  "permissions (http \<lparr>http = \<lparr>permissions = None\<rparr>, received = []\<rparr>) = None
   \<and> with_permission_check ''x'' (recording_stub (Inr (0::nat)))
        \<lparr>http = \<lparr>permissions = None\<rparr>, received = []\<rparr> (7::int)
       = (Inl (AssertionError permissions_none_message :: unit exn),
          \<lparr>http = \<lparr>permissions = None\<rparr>, received = []\<rparr>)
   \<and> received (snd (with_permission_check ''x''
        (recording_stub (Inr (0::nat) :: unit exn + nat))
        \<lparr>http = \<lparr>permissions = None\<rparr>, received = []\<rparr> (7::int))) = []"
proof -
  let ?self = "\<lparr>http = \<lparr>permissions = None\<rparr>, received = [] :: int list\<rparr>"
  have unset: "permissions (http ?self) = None" by simp
  from guard_unset_is_fatal [OF unset, of "''x''" "recording_stub (Inr (0::nat) :: unit exn + nat)" 7]
  show ?thesis by simp
qed

text \<open>
  Claim C3. With the permissions populated and no match, a guarded call raises
  \<open>AccessException\<close> carrying the required permission string. The outcome does not
  depend on the wrapped operation and the endpoint is left as it was: the operation is
  not invoked.
\<close>

theorem guard_denied:
  "permissions (http self) = Some granted \<Longrightarrow> \<not> has_permissions required granted \<Longrightarrow>
     with_permission_check required function self args
       = (Inl (AccessException required), self)"
  by (simp add: with_permission_check_def)

theorem guard_denied_witness:
  "permissions (http \<lparr>http = \<lparr>permissions = Some []\<rparr>, received = []\<rparr>) = Some []
   \<and> \<not> has_permissions ''x'' []
   \<and> with_permission_check ''x'' (recording_stub (Inr (0::nat)))
        \<lparr>http = \<lparr>permissions = Some []\<rparr>, received = []\<rparr> (7::int)
       = (Inl (AccessException ''x'' :: unit exn),
          \<lparr>http = \<lparr>permissions = Some []\<rparr>, received = []\<rparr>)
   \<and> received (snd (with_permission_check ''x''
        (recording_stub (Inr (0::nat) :: unit exn + nat))
        \<lparr>http = \<lparr>permissions = Some []\<rparr>, received = []\<rparr> (7::int))) = []"
proof -
  let ?self = "\<lparr>http = \<lparr>permissions = Some []\<rparr>, received = [] :: int list\<rparr>"
  have populated: "permissions (http ?self) = Some []" by simp
  have no: "\<not> has_permissions ''x'' []"
    by (simp add: has_permissions_def str_split_def has_permissions_loop.simps)
  from guard_denied [OF populated no, of "recording_stub (Inr (0::nat) :: unit exn + nat)" 7] no
  show ?thesis by simp
qed

text \<open>
  Claim C4. With the permissions populated and a match, a guarded call is one call of the
  wrapped operation on the same endpoint and the same arguments: its value or its
  exception, and the endpoint as it leaves it, are those of the guarded call.
\<close>

theorem guard_pass_through:
  "permissions (http self) = Some granted \<Longrightarrow> has_permissions required granted \<Longrightarrow>
     with_permission_check required function self args = function self args"
  by (simp add: with_permission_check_def)

theorem guard_pass_through_witness:
  "permissions (http \<lparr>http = \<lparr>permissions = Some [''x'']\<rparr>, received = []\<rparr>) = Some [''x'']
   \<and> has_permissions ''x.y'' [''x'']
   \<and> with_permission_check ''x.y'' (recording_stub (Inr (0::nat)))
        \<lparr>http = \<lparr>permissions = Some [''x'']\<rparr>, received = []\<rparr> (7::int)
       = (Inr 0 :: unit exn + nat,
          \<lparr>http = \<lparr>permissions = Some [''x'']\<rparr>, received = [7]\<rparr>)
   \<and> with_permission_check ''x.y'' (recording_stub (Inl (Other ())))
        \<lparr>http = \<lparr>permissions = Some [''x'']\<rparr>, received = []\<rparr> (7::int)
       = (Inl (Other ()) :: unit exn + nat,
          \<lparr>http = \<lparr>permissions = Some [''x'']\<rparr>, received = [7]\<rparr>)"
proof -
  let ?self = "\<lparr>http = \<lparr>permissions = Some [''x'']\<rparr>, received = [] :: int list\<rparr>"
  have populated: "permissions (http ?self) = Some [''x'']" by simp
  have yes: "has_permissions ''x.y'' [''x'']"
    by (simp add: has_permissions_def str_split_def has_permissions_loop.simps)
  from guard_pass_through [OF populated yes, of "recording_stub (Inr (0::nat) :: unit exn + nat)" 7]
    guard_pass_through [OF populated yes, of "recording_stub (Inl (Other ()) :: unit exn + nat)" 7]
    yes
  show ?thesis by (simp add: recording_stub_def)
qed

end
